theory Spec2Isabelle
  imports Complex_Main "HOL-Library.Word" "HOL-Library.Log_Nat"
begin

unbundle bit_operations_syntax

section \<open>Machine types of the Go sources\<close>

text \<open>
  \<^verbatim>\<open>int32\<close> is a 32-bit word and \<^verbatim>\<open>uint32\<close> likewise; \<^verbatim>\<open>uintptr\<close> and \<^verbatim>\<open>int\<close> are taken at
  their width on the 64-bit targets of Go. Arithmetic on words wraps around, as Go's does;
  \<open>sint\<close> reads a word as the signed value Go prints.
\<close>

type_synonym int32 = "32 word"
type_synonym uint32 = "32 word"
type_synonym uintptr = "64 word"
type_synonym go_int = "64 word"

section \<open>atomic.go: the primitives of sync/atomic\<close>

text \<open>
  The functions of Go's \<^verbatim>\<open>sync/atomic\<close>: each is one indivisible access to the addressed
  cell, which takes the cell's content and returns its result together with the cell's
  new content.
\<close>

definition CompareAndSwapUintptr :: "uintptr \<Rightarrow> uintptr \<Rightarrow> uintptr \<Rightarrow> bool \<times> uintptr" where
  "CompareAndSwapUintptr cell old new = (if cell = old then (True, new) else (False, cell))"

definition StoreUintptr :: "uintptr \<Rightarrow> uintptr \<Rightarrow> uintptr" where
  "StoreUintptr cell v = v"

definition LoadUintptr :: "uintptr \<Rightarrow> uintptr" where
  "LoadUintptr cell = cell"

definition CompareAndSwapInt32 :: "int32 \<Rightarrow> int32 \<Rightarrow> int32 \<Rightarrow> bool \<times> int32" where
  "CompareAndSwapInt32 cell old new = (if cell = old then (True, new) else (False, cell))"

definition SwapInt32 :: "int32 \<Rightarrow> int32 \<Rightarrow> int32 \<times> int32" where
  "SwapInt32 cell new = (cell, new)"

definition LoadInt32 :: "int32 \<Rightarrow> int32" where
  "LoadInt32 cell = cell"

definition AddInt32 :: "int32 \<Rightarrow> int32 \<Rightarrow> int32 \<times> int32" where
  "AddInt32 cell delta = (cell + delta, cell + delta)"

subsection \<open>SDL_SpinLock\<close>

text \<open>
  \<^verbatim>\<open>type SDL_SpinLock struct { lock uintptr; _ sync.Mutex }\<close>: the second field only
  makes the compiler warn about copies and carries no state of the lock.
\<close>

record SDL_SpinLock =
  lock :: uintptr

definition TryLock :: "SDL_SpinLock \<Rightarrow> bool \<times> SDL_SpinLock" where
  "TryLock l = (let (ok, cell) = CompareAndSwapUintptr (lock l) 0 1 in (ok, l\<lparr>lock := cell\<rparr>))"

definition Unlock :: "SDL_SpinLock \<Rightarrow> SDL_SpinLock" where
  "Unlock l = l\<lparr>lock := StoreUintptr (lock l) 0\<rparr>"

definition SDL_TryLockSpinlock :: "SDL_SpinLock \<Rightarrow> bool \<times> SDL_SpinLock" where
  "SDL_TryLockSpinlock l = TryLock l"

definition SDL_UnlockSpinlock :: "SDL_SpinLock \<Rightarrow> SDL_SpinLock" where
  "SDL_UnlockSpinlock l = Unlock l"

subsection \<open>SDL_AtomicInt and the atomic pointer\<close>

text \<open>\<^verbatim>\<open>type SDL_AtomicInt struct{ value int32 }\<close>; the field is called \<open>atomic_value\<close> here.\<close>

record SDL_AtomicInt =
  atomic_value :: int32

definition SDL_AtomicCompareAndSwap :: "SDL_AtomicInt \<Rightarrow> int32 \<Rightarrow> int32 \<Rightarrow> bool \<times> SDL_AtomicInt" where
  "SDL_AtomicCompareAndSwap a oldval newval =
     (let (ok, cell) = CompareAndSwapInt32 (atomic_value a) oldval newval
      in (ok, a\<lparr>atomic_value := cell\<rparr>))"

definition SDL_AtomicSet :: "SDL_AtomicInt \<Rightarrow> int32 \<Rightarrow> int32 \<times> SDL_AtomicInt" where
  "SDL_AtomicSet a v =
     (let (previous, cell) = SwapInt32 (atomic_value a) v in (previous, a\<lparr>atomic_value := cell\<rparr>))"

definition SDL_AtomicGet :: "SDL_AtomicInt \<Rightarrow> int32" where
  "SDL_AtomicGet a = LoadInt32 (atomic_value a)"

text \<open>
  \<^verbatim>\<open>old := a.value; atomic.AddInt32(&a.value, v); return old\<close>: two accesses to the
  memory, a plain load and then the atomic addition, whose own result is dropped.
  \<open>SDL_AtomicAdd\<close> is the call run with no other goroutine between the two accesses.
\<close>

definition SDL_AtomicAdd_load :: "SDL_AtomicInt \<Rightarrow> int32" where
  "SDL_AtomicAdd_load a = atomic_value a"

definition SDL_AtomicAdd_add :: "SDL_AtomicInt \<Rightarrow> int32 \<Rightarrow> SDL_AtomicInt" where
  "SDL_AtomicAdd_add a v = (let (_, cell) = AddInt32 (atomic_value a) v in a\<lparr>atomic_value := cell\<rparr>)"

definition SDL_AtomicAdd :: "SDL_AtomicInt \<Rightarrow> int32 \<Rightarrow> int32 \<times> SDL_AtomicInt" where
  "SDL_AtomicAdd a v =
     (let old = SDL_AtomicAdd_load a;
          a' = SDL_AtomicAdd_add a v
      in (old, a'))"

definition SDL_AtomicIncRef :: "SDL_AtomicInt \<Rightarrow> SDL_AtomicInt" where
  "SDL_AtomicIncRef a = snd (SDL_AtomicAdd a 1)"

definition SDL_AtomicDecRef :: "SDL_AtomicInt \<Rightarrow> bool \<times> SDL_AtomicInt" where
  "SDL_AtomicDecRef a = (let (old, a') = SDL_AtomicAdd a (- 1) in (old = 1, a'))"

text \<open>
  Several goroutines calling \<^verbatim>\<open>SDL_AtomicAdd(a, v)\<close> on one variable. A call stands before
  its load, between its load and its addition (holding the \<open>old\<close> it has read), or after
  its addition (returning that \<open>old\<close>); one step of a call is one of its two accesses.
  A schedule is the list of the goroutines in the order in which they take their steps.
  \<open>SDL_AtomicDecRef_result\<close> is what \<^verbatim>\<open>SDL_AtomicDecRef\<close> returns for a call of
  \<^verbatim>\<open>SDL_AtomicAdd(a, -1)\<close> that has returned.
\<close>

datatype add_call = BeforeLoad | Loaded int32 | Added int32

fun SDL_AtomicAdd_step :: "int32 \<Rightarrow> add_call \<Rightarrow> SDL_AtomicInt \<Rightarrow> add_call \<times> SDL_AtomicInt" where
  "SDL_AtomicAdd_step v BeforeLoad a = (Loaded (SDL_AtomicAdd_load a), a)"
| "SDL_AtomicAdd_step v (Loaded old) a = (Added old, SDL_AtomicAdd_add a v)"
| "SDL_AtomicAdd_step v (Added old) a = (Added old, a)"

fun goroutines :: "int32 \<Rightarrow> nat list \<Rightarrow> add_call list \<Rightarrow> SDL_AtomicInt \<Rightarrow> add_call list \<times> SDL_AtomicInt" where
  "goroutines v [] calls a = (calls, a)"
| "goroutines v (g # schedule) calls a =
     (if g < length calls
      then (case SDL_AtomicAdd_step v (calls ! g) a of
              (call, a') \<Rightarrow> goroutines v schedule (calls[g := call]) a')
      else goroutines v schedule calls a)"

fun SDL_AtomicDecRef_result :: "add_call \<Rightarrow> bool option" where
  "SDL_AtomicDecRef_result (Added old) = Some (old = 1)"
| "SDL_AtomicDecRef_result _ = None"

text \<open>
  The pointer functions act on a \<^verbatim>\<open>*uintptr\<close>; the cell's content is passed and returned.
  \<^verbatim>\<open>SDL_AtomicSetPtr\<close> is \<^verbatim>\<open>atomic.StoreUintptr(a, v); return v\<close>.
\<close>

definition SDL_AtomicCompareAndSwapPointer :: "uintptr \<Rightarrow> uintptr \<Rightarrow> uintptr \<Rightarrow> bool \<times> uintptr" where
  "SDL_AtomicCompareAndSwapPointer a oldval newval = CompareAndSwapUintptr a oldval newval"

definition SDL_AtomicSetPtr :: "uintptr \<Rightarrow> uintptr \<Rightarrow> uintptr \<times> uintptr" where
  "SDL_AtomicSetPtr a v = (let cell = StoreUintptr a v in (v, cell))"

definition SDL_AtomicGetPtr :: "uintptr \<Rightarrow> uintptr" where
  "SDL_AtomicGetPtr a = LoadUintptr a"

section \<open>Bit helpers\<close>

text \<open>
  \<^verbatim>\<open>bits.Len32\<close> belongs to Go's standard library: by its documentation it returns the
  minimum number of bits required to represent its argument, and 0 for 0. \<open>bit_length\<close>
  counts the halvings that reach 0, which is that number (lemma \<open>Len32_least\<close> below).
  The results lie between \<open>-1\<close> and \<open>32\<close>, so Go's \<^verbatim>\<open>int\<close> is read as an integer here.
\<close>

fun bit_length :: "nat \<Rightarrow> nat" where
  "bit_length n = (if n = 0 then 0 else Suc (bit_length (n div 2)))"

definition Len32 :: "uint32 \<Rightarrow> int" where
  "Len32 x = int (bit_length (unat x))"

definition SDL_MostSignificantBitIndex32 :: "uint32 \<Rightarrow> int" where
  "SDL_MostSignificantBitIndex32 x = (if x = 0 then - 1 else Len32 x)"

definition SDL_HasExactlyOneBitSet32 :: "uint32 \<Rightarrow> bool" where
  "SDL_HasExactlyOneBitSet32 x = (x \<noteq> 0 \<and> x AND (x - 1) = 0)"

section \<open>blendmode.go\<close>

text \<open>
  \<^verbatim>\<open>SDL_BlendMode\<close>, \<^verbatim>\<open>SDL_BlendOperation\<close> and \<^verbatim>\<open>SDL_BlendFactor\<close> are named \<^verbatim>\<open>int\<close> types:
  a caller may pass any \<^verbatim>\<open>int\<close>, not only the named constants. A panic is a value.
\<close>

type_synonym SDL_BlendMode = go_int
type_synonym SDL_BlendOperation = go_int
type_synonym SDL_BlendFactor = go_int

definition SDL_BLENDMODE_INVALID :: SDL_BlendMode where
  "SDL_BLENDMODE_INVALID = 0x7FFFFFFF"

datatype panic = Panic string

definition TODO :: "panic + unit" where
  "TODO = Inl (Panic ''not implemeted'')"

definition SDL_ComposeCustomBlendMode ::
  "SDL_BlendFactor \<Rightarrow> SDL_BlendFactor \<Rightarrow> SDL_BlendOperation \<Rightarrow>
   SDL_BlendFactor \<Rightarrow> SDL_BlendFactor \<Rightarrow> SDL_BlendOperation \<Rightarrow> panic + SDL_BlendMode" where
  "SDL_ComposeCustomBlendMode srcColorFactor dstColorFactor colorOperation
       srcAlphaFactor dstAlphaFactor alphaOperation =
     (case TODO of
        Inl p \<Rightarrow> Inl p
      | Inr _ \<Rightarrow> Inr SDL_BLENDMODE_INVALID)"

section \<open>The assertion engine\<close>

datatype SDL_AssertState =
    SDL_ASSERTION_RETRY
  | SDL_ASSERTION_BREAK
  | SDL_ASSERTION_ABORT
  | SDL_ASSERTION_IGNORE
  | SDL_ASSERTION_ALWAYS_IGNORE

text \<open>
  A \<^verbatim>\<open>*SDL_AssertData\<close> that is not nil is an address; \<^verbatim>\<open>Next\<close> and the list head
  \<^verbatim>\<open>triggeredAssertions\<close> may be nil (\<open>None\<close>). Go's memory safety makes every address
  hold a record, so the heap is a total function.
\<close>

type_synonym addr = nat

record SDL_AssertData =
  AlwaysIgnore :: bool
  TriggerCount :: go_int
  Condition :: string
  Filename :: string
  Linenum :: go_int
  Function :: string
  Next :: "addr option"

text \<open>The composite literal \<^verbatim>\<open>SDL_AssertData{}\<close>: every field at its zero value.\<close>

definition zero_AssertData :: SDL_AssertData where
  "zero_AssertData =
     \<lparr>AlwaysIgnore = False, TriggerCount = 0, Condition = [], Filename = [],
      Linenum = 0, Function = [], Next = None\<rparr>"

text \<open>
  The state the engine works on: the records, the allocator's next fresh address, the
  package variables \<^verbatim>\<open>triggeredAssertions\<close> and \<^verbatim>\<open>assertionData\<close> (the handler's user data,
  a number here), and two observations of what the outside saw: the records the handler
  was called with, in order, and the number of \<^verbatim>\<open>runtime.Breakpoint()\<close> traps.
\<close>

record world =
  heap :: "addr \<Rightarrow> SDL_AssertData"
  next_free :: addr
  triggeredAssertions :: "addr option"
  assertionData :: nat
  handler_calls :: "addr list"
  breakpoints :: nat

text \<open>\<^verbatim>\<open>os.Exit\<close> does not return: a computation either ends the process or returns.\<close>

datatype 'a outcome = Exited go_int world | Returned 'a world

fun final_world :: "'a outcome \<Rightarrow> world" where
  "final_world (Exited code w) = w"
| "final_world (Returned x w) = w"

text \<open>
  \<^verbatim>\<open>type SDL_AssertionHandler func(data *SDL_AssertData, userdata any) SDL_AssertState\<close>:
  arbitrary code that is handed the record, may read and change the state (its user data
  included), may report assertions of its own, and returns a state or ends the process.
  The package variable \<^verbatim>\<open>assertionHandler\<close> is a parameter of the functions that call it.
  A handler is taken to return one of the five named states.
\<close>

type_synonym SDL_AssertionHandler = "addr \<Rightarrow> world \<Rightarrow> SDL_AssertState outcome"

definition store :: "addr \<Rightarrow> SDL_AssertData \<Rightarrow> world \<Rightarrow> world" where
  "store a r w = w\<lparr>heap := (heap w)(a := r)\<rparr>"

definition SDL_ExitProcess :: "go_int \<Rightarrow> world \<Rightarrow> 'a outcome" where
  "SDL_ExitProcess exitcode w = Exited exitcode w"

definition SDL_AbortAssertion :: "world \<Rightarrow> 'a outcome" where
  "SDL_AbortAssertion w = SDL_ExitProcess 42 w"

definition SDL_AssertBreakpoint :: "world \<Rightarrow> world" where
  "SDL_AssertBreakpoint w = w\<lparr>breakpoints := Suc (breakpoints w)\<rparr>"

definition SDL_AddAssertionToReport :: "addr \<Rightarrow> world \<Rightarrow> world" where
  "SDL_AddAssertionToReport data w =
     (let w1 = store data ((heap w data)\<lparr>TriggerCount := TriggerCount (heap w data) + 1\<rparr>) w
      in if TriggerCount (heap w1 data) = 1
         then (let w2 = store data ((heap w1 data)\<lparr>Next := triggeredAssertions w1\<rparr>) w1
               in w2\<lparr>triggeredAssertions := Some data\<rparr>)
         else w1)"

text \<open>
  \<^verbatim>\<open>SDL_ReportAssertion\<close>. The mutex and the counter \<^verbatim>\<open>assertionRunning\<close> are local
  variables of the function (\<^verbatim>\<open>var assertionRunning = 0\<close>, \<^verbatim>\<open>var mutex sync.Mutex\<close>): the
  mutex is fresh and free at every call, so locking it has no effect, and the counter starts
  from 0 at every call. The final \<^verbatim>\<open>assertionRunning--\<close> changes a variable that dies with
  the call. \<open>1 <s n\<close> is Go's signed \<^verbatim>\<open>n > 1\<close>. The handler call is noted in
  \<open>handler_calls\<close> as it is made.
\<close>

definition SDL_ReportAssertion ::
  "SDL_AssertionHandler \<Rightarrow> addr \<Rightarrow> string \<Rightarrow> string \<Rightarrow> go_int \<Rightarrow> world \<Rightarrow> SDL_AssertState outcome" where
  "SDL_ReportAssertion assertionHandler data fn file line w0 =
     (let state = SDL_ASSERTION_IGNORE;
          assertionRunning = (0 :: go_int);
          w1 = (if TriggerCount (heap w0 data) = 0
                then store data ((heap w0 data)\<lparr>Function := fn, Filename := file, Linenum := line\<rparr>) w0
                else w0);
          w2 = SDL_AddAssertionToReport data w1;
          assertionRunning = assertionRunning + 1
      in case (if 1 <s assertionRunning
               then (if assertionRunning = 2 then SDL_AbortAssertion w2
                     else if assertionRunning = 3 then SDL_ExitProcess 42 w2
                     else Returned () w2)
               else Returned () w2) of
           Exited code w \<Rightarrow> Exited code w
         | Returned _ w3 \<Rightarrow>
            (case (if \<not> AlwaysIgnore (heap w3 data)
                   then assertionHandler data (w3\<lparr>handler_calls := handler_calls w3 @ [data]\<rparr>)
                   else Returned state w3) of
               Exited code w \<Rightarrow> Exited code w
             | Returned state w4 \<Rightarrow>
                (case state of
                   SDL_ASSERTION_ALWAYS_IGNORE \<Rightarrow>
                     Returned SDL_ASSERTION_IGNORE (store data ((heap w4 data)\<lparr>AlwaysIgnore := True\<rparr>) w4)
                 | SDL_ASSERTION_IGNORE \<Rightarrow> Returned state w4
                 | SDL_ASSERTION_RETRY \<Rightarrow> Returned state w4
                 | SDL_ASSERTION_BREAK \<Rightarrow> Returned state w4
                 | SDL_ASSERTION_ABORT \<Rightarrow> SDL_AbortAssertion w4)))"

text \<open>
  \<^verbatim>\<open>var sdl_assert_data = SDL_AssertData{}\<close> whose address is passed on: each execution of
  the declaration makes a new object.
\<close>

definition new_SDL_AssertData :: "world \<Rightarrow> addr \<times> world" where
  "new_SDL_AssertData w =
     (next_free w, w\<lparr>heap := (heap w)(next_free w := zero_AssertData), next_free := Suc (next_free w)\<rparr>)"

text \<open>
  \<^verbatim>\<open>SDL_enabled_assert\<close>. \<open>fn\<close>, \<open>file\<close> and \<open>line\<close> are what \<^verbatim>\<open>runtime.Caller(2)\<close>
  yields: the call site of the assertion. The condition is a \<^verbatim>\<open>bool\<close> parameter, so the
  loop never sees it change; it runs for as long as the handler answers RETRY, and a handler
  that always does keeps it running for ever (the value \<open>None\<close>).
\<close>

partial_function (option) SDL_enabled_assert ::
  "SDL_AssertionHandler \<Rightarrow> bool \<Rightarrow> string \<Rightarrow> string \<Rightarrow> go_int \<Rightarrow> world \<Rightarrow> unit outcome option" where
  "SDL_enabled_assert assertionHandler condition fn file line w =
     (if \<not> condition then
        (case new_SDL_AssertData w of
           (sdl_assert_data, w1) \<Rightarrow>
             (case SDL_ReportAssertion assertionHandler sdl_assert_data fn file line w1 of
                Exited code w2 \<Rightarrow> Some (Exited code w2)
              | Returned state w2 \<Rightarrow>
                  if state = SDL_ASSERTION_RETRY
                  then SDL_enabled_assert assertionHandler condition fn file line w2
                  else if state = SDL_ASSERTION_BREAK
                  then Some (Returned () (SDL_AssertBreakpoint w2))
                  else Some (Returned () w2)))
      else Some (Returned () w))"

text \<open>
  \<^verbatim>\<open>SDL_ResetAssertionReport\<close>: the loop follows \<^verbatim>\<open>Next\<close> from the head until nil. It sets
  the \<^verbatim>\<open>Next\<close> of every record it passes to nil, so it also ends when the chain leads back
  to a record already passed; \<open>None\<close> stands for a chain that never ends.
\<close>

partial_function (option) reset_loop :: "addr option \<Rightarrow> world \<Rightarrow> world option" where
  "reset_loop item w =
     (case item of
        None \<Rightarrow> Some w
      | Some a \<Rightarrow>
          reset_loop (Next (heap w a))
            (store a ((heap w a)\<lparr>AlwaysIgnore := False, TriggerCount := 0, Next := None\<rparr>) w))"

definition SDL_ResetAssertionReport :: "world \<Rightarrow> world option" where
  "SDL_ResetAssertionReport w =
     (case reset_loop (triggeredAssertions w) w of
        None \<Rightarrow> None
      | Some w' \<Rightarrow> Some (w'\<lparr>triggeredAssertions := None\<rparr>))"

text \<open>
  The registry as a list: \<open>registry w as\<close> says that following \<^verbatim>\<open>Next\<close> from
  \<^verbatim>\<open>triggeredAssertions\<close> visits exactly the records \<open>as\<close>, in this order, and then nil.
  It is what the loops of the report and of the reset walk over.
\<close>

primrec chain :: "(addr \<Rightarrow> SDL_AssertData) \<Rightarrow> addr option \<Rightarrow> addr list \<Rightarrow> bool" where
  "chain h p [] = (p = None)"
| "chain h p (a # as) = (p = Some a \<and> chain h (Next (h a)) as)"

definition registry :: "world \<Rightarrow> addr list \<Rightarrow> bool" where
  "registry w as = chain (heap w) (triggeredAssertions w) as"

text \<open>
  The state after the first part of \<^verbatim>\<open>SDL_ReportAssertion\<close> (the capture of the location
  and \<^verbatim>\<open>SDL_AddAssertionToReport\<close>), and the state in which it then calls the handler.
  \<open>cleared\<close> is what the loop of \<^verbatim>\<open>SDL_ResetAssertionReport\<close> does to one record.
\<close>

definition reported :: "addr \<Rightarrow> string \<Rightarrow> string \<Rightarrow> go_int \<Rightarrow> world \<Rightarrow> world" where
  "reported data fn file line w =
     SDL_AddAssertionToReport data
       (if TriggerCount (heap w data) = 0
        then store data ((heap w data)\<lparr>Function := fn, Filename := file, Linenum := line\<rparr>) w
        else w)"

definition handler_entry :: "addr \<Rightarrow> string \<Rightarrow> string \<Rightarrow> go_int \<Rightarrow> world \<Rightarrow> world" where
  "handler_entry data fn file line w =
     (reported data fn file line w)
       \<lparr>handler_calls := handler_calls (reported data fn file line w) @ [data]\<rparr>"

definition cleared :: "SDL_AssertData \<Rightarrow> SDL_AssertData" where
  "cleared r = r\<lparr>AlwaysIgnore := False, TriggerCount := 0, Next := None\<rparr>"

text \<open>
  Callers and handlers used to state the properties. \<open>report_again n\<close> is a caller in which
  the same record fails \<open>n + 1\<close> times in a row. \<open>answering s\<close> is a handler that returns
  \<open>s\<close> and touches nothing. \<open>nesting inner fn file line h s\<close> is a handler that, while it
  runs, fails an assertion of its own on the record \<open>inner\<close> (during which the handler
  behaves as \<open>h\<close>) and then returns \<open>s\<close>. \<open>retrying\<close> keeps a count in its user data:
  it answers RETRY that many times and IGNORE from then on.
\<close>

fun report_again ::
  "nat \<Rightarrow> SDL_AssertionHandler \<Rightarrow> addr \<Rightarrow> string \<Rightarrow> string \<Rightarrow> go_int \<Rightarrow> world \<Rightarrow> SDL_AssertState outcome" where
  "report_again 0 h data fn file line w = SDL_ReportAssertion h data fn file line w"
| "report_again (Suc n) h data fn file line w =
     (case SDL_ReportAssertion h data fn file line w of
        Exited code v \<Rightarrow> Exited code v
      | Returned _ v \<Rightarrow> report_again n h data fn file line v)"

definition answering :: "SDL_AssertState \<Rightarrow> SDL_AssertionHandler" where
  "answering s data w = Returned s w"

definition nesting ::
  "addr \<Rightarrow> string \<Rightarrow> string \<Rightarrow> go_int \<Rightarrow> SDL_AssertionHandler \<Rightarrow> SDL_AssertState \<Rightarrow> SDL_AssertionHandler" where
  "nesting inner fn file line h s data w =
     (case SDL_ReportAssertion h inner fn file line w of
        Exited code v \<Rightarrow> Exited code v
      | Returned _ v \<Rightarrow> Returned s v)"

definition retrying :: SDL_AssertionHandler where
  "retrying data w =
     (if 0 < assertionData w
      then Returned SDL_ASSERTION_RETRY (w\<lparr>assertionData := assertionData w - 1\<rparr>)
      else Returned SDL_ASSERTION_IGNORE w)"

text \<open>The state of a process that has not asserted yet.\<close>

definition initial_world :: world where
  "initial_world =
     \<lparr>heap = (\<lambda>_. zero_AssertData), next_free = 0, triggeredAssertions = None,
      assertionData = 0, handler_calls = [], breakpoints = 0\<rparr>"

text \<open>
  \<open>passed fn file line w\<close> is the state one pass of the loop of \<^verbatim>\<open>SDL_enabled_assert\<close>
  leaves when the handler is \<open>retrying\<close> (lemma \<open>one_pass\<close>). \<open>one_ignored\<close> is the state
  after one record has failed once and the handler has answered ALWAYS_IGNORE.
\<close>

definition passed :: "string \<Rightarrow> string \<Rightarrow> go_int \<Rightarrow> world \<Rightarrow> world" where
  "passed fn file line w =
     w\<lparr>heap := (heap w)(next_free w :=
            zero_AssertData\<lparr>Function := fn, Filename := file, Linenum := line, TriggerCount := 1,
                             Next := triggeredAssertions w\<rparr>),
       next_free := Suc (next_free w),
       triggeredAssertions := Some (next_free w),
       assertionData := assertionData w - 1,
       handler_calls := handler_calls w @ [next_free w]\<rparr>"

definition one_ignored :: world where
  "one_ignored =
     final_world (SDL_ReportAssertion (answering SDL_ASSERTION_ALWAYS_IGNORE) 0 ''f'' ''f.go'' 10
       initial_world)"

subsection \<open>The default handler\<close>

text \<open>
  The process environment maps names to values; \<^verbatim>\<open>os.Getenv\<close> returns the value, which is
  empty when the variable is not present. One \<^verbatim>\<open>fmt.Fscanln(os.Stdin, &buf)\<close> either scans
  a token (\<^verbatim>\<open>c == 1\<close>, \<^verbatim>\<open>err == nil\<close>) or fails (\<^verbatim>\<open>c == 0 || err != nil\<close>); the standard input
  is the list of what the successive calls meet, and at its end every call fails with
  \<^verbatim>\<open>io.EOF\<close>. The standard error stream is the list of strings written to it.
\<close>

type_synonym environ = "string \<rightharpoonup> string"

definition Getenv :: "environ \<Rightarrow> string \<Rightarrow> string" where
  "Getenv env key = (case env key of None \<Rightarrow> [] | Some v \<Rightarrow> v)"

datatype scan = Scanned string | ScanFailed

record console =
  stdin :: "scan list"
  stderr :: "string list"

definition prompt_text :: string where
  "prompt_text = ''Abort/Break/Retry/Ignore/AlwaysIgnore? [abriA] : ''"

text \<open>The \<^verbatim>\<open>for\<close> loop of \<^verbatim>\<open>SDL_PromptAssertion\<close>, entered with \<^verbatim>\<open>state = SDL_ASSERTION_ABORT\<close>.\<close>

fun prompt_loop :: "SDL_AssertState \<Rightarrow> scan list \<Rightarrow> string list \<Rightarrow> SDL_AssertState \<times> console" where
  "prompt_loop state [] err = (state, \<lparr>stdin = [], stderr = err @ [prompt_text]\<rparr>)"
| "prompt_loop state (ScanFailed # rest) err = (state, \<lparr>stdin = rest, stderr = err @ [prompt_text]\<rparr>)"
| "prompt_loop state (Scanned buf # rest) err =
     (if buf = ''a'' then (SDL_ASSERTION_ABORT, \<lparr>stdin = rest, stderr = err @ [prompt_text]\<rparr>)
      else if buf = ''b'' then (SDL_ASSERTION_BREAK, \<lparr>stdin = rest, stderr = err @ [prompt_text]\<rparr>)
      else if buf = ''r'' then (SDL_ASSERTION_RETRY, \<lparr>stdin = rest, stderr = err @ [prompt_text]\<rparr>)
      else if buf = ''i'' then (SDL_ASSERTION_IGNORE, \<lparr>stdin = rest, stderr = err @ [prompt_text]\<rparr>)
      else if buf = ''A'' then (SDL_ASSERTION_ALWAYS_IGNORE, \<lparr>stdin = rest, stderr = err @ [prompt_text]\<rparr>)
      else prompt_loop state rest (err @ [prompt_text]))"

text \<open>
  \<^verbatim>\<open>SDL_PromptAssertion\<close> uses neither its record nor its user data (the code that did is
  commented out), so the model takes the environment and the console only.
\<close>

definition SDL_PromptAssertion :: "environ \<Rightarrow> console \<Rightarrow> SDL_AssertState \<times> console" where
  "SDL_PromptAssertion env con =
     (let state = SDL_ASSERTION_ABORT;
          envr = Getenv env ''SDL_ASSERT''
      in if envr \<noteq> [] then
           (if envr = ''abort'' then (SDL_ASSERTION_ABORT, con)
            else if envr = ''break'' then (SDL_ASSERTION_BREAK, con)
            else if envr = ''retry'' then (SDL_ASSERTION_RETRY, con)
            else if envr = ''ignore'' then (SDL_ASSERTION_IGNORE, con)
            else if envr = ''always_ignore'' then (SDL_ASSERTION_ALWAYS_IGNORE, con)
            else (SDL_ASSERTION_ABORT, con))
         else prompt_loop state (stdin con) (stderr con))"

section \<open>Properties of the atomic primitives\<close>

lemma sint_decrement:
  "sint (x - 1 :: int32) = (if sint x = - (2 ^ 31) then 2 ^ 31 - 1 else sint x - 1)"
proof (cases "sint x = - (2 ^ 31)")
  case True
  have "x = word_of_int (sint x)" by simp
  then have "x = word_of_int (- (2 ^ 31))" using True by metis
  then show ?thesis by simp
next
  case False
  have b: "- (2 ^ 31) \<le> sint x" "sint x < 2 ^ 31"
    using sint_ge[of x] sint_lt[of x] by simp_all
  have "sint (x - 1) = signed_take_bit 31 (sint x - 1)"
    by (simp add: sint_word_ariths)
  also have "\<dots> = sint x - 1"
    using b False by (intro signed_take_bit_int_eq_self) simp_all
  finally show ?thesis using False by simp
qed

lemma SDL_AtomicAdd_eq: "SDL_AtomicAdd a v = (atomic_value a, a\<lparr>atomic_value := atomic_value a + v\<rparr>)"
  by (simp add: SDL_AtomicAdd_def SDL_AtomicAdd_load_def SDL_AtomicAdd_add_def AddInt32_def)

text \<open>A goroutine that takes its two steps with no other in between makes \<open>SDL_AtomicAdd\<close>.\<close>

lemma SDL_AtomicAdd_steps_alone:
  "goroutines v [0, 0] [BeforeLoad] a = ([Added (fst (SDL_AtomicAdd a v))], snd (SDL_AtomicAdd a v))"
  by (simp add: SDL_AtomicAdd_def SDL_AtomicAdd_load_def SDL_AtomicAdd_add_def AddInt32_def)

text \<open>
  Called by one goroutine alone, \<^verbatim>\<open>SDL_AtomicDecRef\<close> returns true exactly when the value
  before the call was 1, and the value after the call is the value before minus 1 (in Go's
  \<^verbatim>\<open>int32\<close>: the least value wraps to the greatest).
\<close>

lemma SDL_AtomicDecRef_alone:
  "fst (SDL_AtomicDecRef a) = (atomic_value a = 1) \<and>
   fst (SDL_AtomicDecRef a) = (sint (atomic_value a) = 1) \<and>
   atomic_value (snd (SDL_AtomicDecRef a)) = atomic_value a - 1 \<and>
   sint (atomic_value (snd (SDL_AtomicDecRef a))) =
     (if sint (atomic_value a) = - (2 ^ 31) then 2 ^ 31 - 1 else sint (atomic_value a) - 1)"
proof -
  have r: "SDL_AtomicDecRef a = (atomic_value a = 1, a\<lparr>atomic_value := atomic_value a - 1\<rparr>)"
    by (simp add: SDL_AtomicDecRef_def SDL_AtomicAdd_eq)
  have one: "(sint (atomic_value a) = 1) = (atomic_value a = 1)"
  proof
    assume "sint (atomic_value a) = 1"
    then have "word_of_int (sint (atomic_value a)) = (word_of_int 1 :: int32)" by simp
    then show "atomic_value a = 1" by simp
  next
    assume "atomic_value a = 1"
    then show "sint (atomic_value a) = 1" by simp
  qed
  show ?thesis
    unfolding r using one sint_decrement[of "atomic_value a"] by simp
qed

text \<open>Two calls on a variable holding 2, one after the other: the second returns true.\<close>

lemma SDL_AtomicDecRef_in_turn:
  "goroutines (- 1) [0, 0, 1, 1] [BeforeLoad, BeforeLoad] \<lparr>atomic_value = 2\<rparr> =
     ([Added 2, Added 1], \<lparr>atomic_value = 0\<rparr>) \<and>
   map SDL_AtomicDecRef_result [Added 2, Added 1] = [Some False, Some True]"
  by (simp add: SDL_AtomicAdd_load_def SDL_AtomicAdd_add_def AddInt32_def)

text \<open>
  C3. With two goroutines the claim fails. Both call \<^verbatim>\<open>SDL_AtomicDecRef\<close> on a variable
  holding 2 and both load before either adds: each has read 2, so both calls return
  false, although the second addition met the value 1 and brought the variable to 0. The
  value a call returns is not the value immediately before its decrement.
\<close>

theorem SDL_AtomicDecRef_both_false_at_zero:
  "goroutines (- 1) [0, 1, 0, 1] [BeforeLoad, BeforeLoad] \<lparr>atomic_value = 2\<rparr> =
     ([Added 2, Added 2], \<lparr>atomic_value = 0\<rparr>) \<and>
   map SDL_AtomicDecRef_result [Added 2, Added 2] = [Some False, Some False]"
  by (simp add: SDL_AtomicAdd_load_def SDL_AtomicAdd_add_def AddInt32_def)

text \<open>
  C4. \<^verbatim>\<open>SDL_AtomicSet\<close> returns the previous value and stores the new one.
  \<^verbatim>\<open>SDL_AtomicSetPtr\<close> stores the new value too, but returns the value it was given, not
  the previous one: on a cell holding 1, setting 2 returns 2.
\<close>

lemma SDL_AtomicSet_previous:
  "SDL_AtomicSet a v = (atomic_value a, a\<lparr>atomic_value := v\<rparr>)"
  by (simp add: SDL_AtomicSet_def SwapInt32_def)

lemma SDL_AtomicSetPtr_argument: "SDL_AtomicSetPtr p v = (v, v)"
  by (simp add: SDL_AtomicSetPtr_def StoreUintptr_def)

theorem SDL_AtomicSetPtr_returns_new_value:
  "SDL_AtomicSetPtr 1 2 = (2, 2) \<and> fst (SDL_AtomicSetPtr 1 2) \<noteq> 1 \<and>
   SDL_AtomicSet \<lparr>atomic_value = 1\<rparr> 2 = (1, \<lparr>atomic_value = 2\<rparr>)"
  by (simp add: SDL_AtomicSetPtr_def StoreUintptr_def SDL_AtomicSet_def SwapInt32_def)

text \<open>
  C8. \<^verbatim>\<open>TryLock\<close> on a lock that is held (its word is not 0) returns false and leaves the
  lock as it is; after \<^verbatim>\<open>Unlock\<close>, \<^verbatim>\<open>TryLock\<close> returns true and the lock is held.
\<close>

theorem TryLock_held_then_unlocked:
  "(lock l \<noteq> 0 \<longrightarrow> TryLock l = (False, l)) \<and>
   fst (TryLock (Unlock l)) \<and> lock (snd (TryLock (Unlock l))) = 1 \<and>
   TryLock (snd (TryLock (Unlock l))) = (False, snd (TryLock (Unlock l)))"
  by (simp add: TryLock_def Unlock_def CompareAndSwapUintptr_def StoreUintptr_def)

theorem TryLock_held_then_unlocked_witness:
  "lock \<lparr>lock = 1\<rparr> \<noteq> 0 \<and> TryLock \<lparr>lock = 1\<rparr> = (False, \<lparr>lock = 1\<rparr>) \<and>
   fst (TryLock (Unlock \<lparr>lock = 1\<rparr>)) \<and> lock (snd (TryLock (Unlock \<lparr>lock = 1\<rparr>))) = 1"
  using TryLock_held_then_unlocked[of "\<lparr>lock = 1\<rparr>"] by simp

section \<open>Properties of the bit helpers\<close>

lemma bit_length_floorlog: "bit_length n = floorlog 2 n"
proof (induction n rule: bit_length.induct)
  case (1 n)
  show ?case
  proof (cases "n = 0")
    case True
    then show ?thesis by (simp add: floorlog_def)
  next
    case False
    with 1 have "bit_length (n div 2) = floorlog 2 (n div 2)" by simp
    with False show ?thesis
      by (subst compute_floorlog) (simp del: bit_length.simps add: bit_length.simps[of n])
  qed
qed

lemma Len32_least: "Len32 x \<le> int n \<longleftrightarrow> unat x < 2 ^ n"
  by (simp add: Len32_def bit_length_floorlog floorlog_le_iff del: bit_length.simps)

lemma floorlog_floor_log:
  assumes "0 < n"
  shows "int (floorlog 2 n) = \<lfloor>log 2 (real n)\<rfloor> + 1"
proof -
  from assms have "1 \<le> real n" by simp
  then have "0 \<le> log 2 (real n)" by (simp add: zero_le_log_cancel_iff)
  then have "0 \<le> \<lfloor>log 2 (real n)\<rfloor>" by simp
  with assms show ?thesis by (simp add: floorlog_def)
qed

lemma Len32_floor_log:
  assumes "x \<noteq> 0"
  shows "Len32 x = \<lfloor>log 2 (real (unat x))\<rfloor> + 1"
proof -
  from assms have "0 < unat x" by (simp add: unat_gt_0)
  then have "int (floorlog 2 (unat x)) = \<lfloor>log 2 (real (unat x))\<rfloor> + 1"
    by (rule floorlog_floor_log)
  then show ?thesis by (simp only: Len32_def bit_length_floorlog)
qed

lemma Len32_range:
  assumes "x \<noteq> 0"
  shows "1 \<le> Len32 x \<and> Len32 x \<le> 32"
proof -
  from assms have pos: "0 < unat x" by (simp add: unat_gt_0)
  have "unat x < 2 ^ 32" using unsigned_less[of x] by simp
  then have "Len32 x \<le> int 32" by (simp only: Len32_least)
  moreover have "\<not> Len32 x \<le> int 0" using pos by (simp only: Len32_least) simp
  ultimately show ?thesis by simp
qed

text \<open>
  C9. \<^verbatim>\<open>SDL_MostSignificantBitIndex32\<close> returns \<open>-1\<close> for 0 and, for every other \<open>x\<close>, the
  bit length of \<open>x\<close>: \<open>\<lfloor>log\<^sub>2 x\<rfloor> + 1\<close>, a value from 1 to 32, one more than the position
  of the most significant set bit.
\<close>

theorem SDL_MostSignificantBitIndex32_bit_length:
  "SDL_MostSignificantBitIndex32 0 = - 1 \<and>
   (x \<noteq> 0 \<longrightarrow>
      SDL_MostSignificantBitIndex32 x = \<lfloor>log 2 (real (unat x))\<rfloor> + 1 \<and>
      1 \<le> SDL_MostSignificantBitIndex32 x \<and> SDL_MostSignificantBitIndex32 x \<le> 32 \<and>
      2 ^ nat (SDL_MostSignificantBitIndex32 x - 1) \<le> unat x \<and>
      unat x < 2 ^ nat (SDL_MostSignificantBitIndex32 x))"
proof -
  have "2 ^ nat (Len32 x - 1) \<le> unat x \<and> unat x < 2 ^ nat (Len32 x)" if "x \<noteq> 0"
  proof -
    from that have pos: "0 < unat x" by (simp add: unat_gt_0)
    have "nat (Len32 x - 1) = floorlog 2 (unat x) - 1" "nat (Len32 x) = floorlog 2 (unat x)"
      by (simp_all add: Len32_def bit_length_floorlog del: bit_length.simps)
    then show ?thesis using floorlog_bounds[of "unat x" 2] pos by simp
  qed
  then show ?thesis
    using Len32_floor_log[of x] Len32_range[of x]
    by (simp add: SDL_MostSignificantBitIndex32_def)
qed

theorem SDL_MostSignificantBitIndex32_bit_length_witness:
  "(8 :: uint32) \<noteq> 0 \<and> SDL_MostSignificantBitIndex32 8 = 4 \<and>
   2 ^ nat (SDL_MostSignificantBitIndex32 8 - 1) \<le> unat (8 :: uint32) \<and>
   unat (8 :: uint32) < 2 ^ nat (SDL_MostSignificantBitIndex32 8)"
proof -
  have v: "SDL_MostSignificantBitIndex32 8 = 4"
    by (simp add: SDL_MostSignificantBitIndex32_def Len32_def)
  show ?thesis
    using SDL_MostSignificantBitIndex32_bit_length[of 8] by (simp add: v)
qed

section \<open>Properties of the blend modes\<close>

text \<open>
  C10. Whatever factors and operations it is given, \<^verbatim>\<open>SDL_ComposeCustomBlendMode\<close> panics
  with the message "not implemeted" and returns no blend mode; the
  \<^verbatim>\<open>return SDL_BLENDMODE_INVALID\<close> after the call of \<^verbatim>\<open>TODO\<close> is never reached.
\<close>

theorem SDL_ComposeCustomBlendMode_panics:
  "SDL_ComposeCustomBlendMode srcColorFactor dstColorFactor colorOperation
       srcAlphaFactor dstAlphaFactor alphaOperation = Inl (Panic ''not implemeted'') \<and>
   (\<forall>mode. SDL_ComposeCustomBlendMode srcColorFactor dstColorFactor colorOperation
       srcAlphaFactor dstAlphaFactor alphaOperation \<noteq> Inr mode)"
  by (simp add: SDL_ComposeCustomBlendMode_def TODO_def)

section \<open>Properties of the assertion engine\<close>

subsection \<open>The registry as a chain of records\<close>

lemma chain_functional: "chain h p as \<Longrightarrow> chain h p bs \<Longrightarrow> as = bs"
proof (induction as arbitrary: p bs)
  case Nil
  then show ?case by (cases bs) auto
next
  case (Cons a as)
  then show ?case by (cases bs) auto
qed

lemma chain_append: "chain h p (as @ b # bs) \<Longrightarrow> chain h (Some b) (b # bs)"
  by (induction as arbitrary: p) auto

lemma chain_head_notin: 
  assumes "chain h (Some a) (a # as)" shows "a \<notin> set as"
proof
  assume "a \<in> set as"
  then obtain xs ys where as: "as = xs @ a # ys" by (auto simp: in_set_conv_decomp)
  from assms have "chain h (Next (h a)) (xs @ a # ys)" by (simp add: as)
  then have "chain h (Some a) (a # ys)" by (rule chain_append)
  with assms have "a # as = a # ys" by (rule chain_functional)
  with as show False by simp
qed

lemma chain_distinct: "chain h p as \<Longrightarrow> distinct as"
proof (induction as arbitrary: p)
  case Nil
  then show ?case by simp
next
  case (Cons a as)
  then have "chain h (Some a) (a # as)" by simp
  then have "a \<notin> set as" by (rule chain_head_notin)
  with Cons show ?case by auto
qed

lemma chain_update_other: "a \<notin> set as \<Longrightarrow> chain (h(a := r)) p as = chain h p as"
  by (induction as arbitrary: p) auto

text \<open>On a registry that is a list, the loop of the reset returns, having cleared its records.\<close>

lemma reset_loop_chain:
  "chain (heap w) p as \<Longrightarrow>
   reset_loop p w = Some (w\<lparr>heap := (\<lambda>a. if a \<in> set as then cleared (heap w a) else heap w a)\<rparr>)"
proof (induction as arbitrary: p w)
  case Nil
  then show ?case by (simp add: reset_loop.simps)
next
  case (Cons a as)
  from Cons.prems have p: "p = Some a" and tl: "chain (heap w) (Next (heap w a)) as" by simp_all
  from Cons.prems have "chain (heap w) (Some a) (a # as)" by simp
  then have notin: "a \<notin> set as" by (rule chain_head_notin)
  let ?w = "store a ((heap w a)\<lparr>AlwaysIgnore := False, TriggerCount := 0, Next := None\<rparr>) w"
  have "chain (heap ?w) (Next (heap w a)) as"
    using tl notin by (simp add: store_def chain_update_other)
  then have "reset_loop (Next (heap w a)) ?w =
      Some (?w\<lparr>heap := (\<lambda>b. if b \<in> set as then cleared (heap ?w b) else heap ?w b)\<rparr>)"
    by (rule Cons.IH)
  moreover have "?w\<lparr>heap := (\<lambda>b. if b \<in> set as then cleared (heap ?w b) else heap ?w b)\<rparr>
      = w\<lparr>heap := (\<lambda>b. if b \<in> set (a # as) then cleared (heap w b) else heap w b)\<rparr>"
    using notin by (auto simp: store_def cleared_def fun_eq_iff)
  ultimately show ?case
    by (subst reset_loop.simps) (simp add: p)
qed

lemma reset_registry:
  assumes "registry w as"
  shows "SDL_ResetAssertionReport w =
           Some (w\<lparr>heap := (\<lambda>a. if a \<in> set as then cleared (heap w a) else heap w a),
                   triggeredAssertions := None\<rparr>)"
  using reset_loop_chain[of w "triggeredAssertions w" as] assms
  by (simp add: SDL_ResetAssertionReport_def registry_def)

subsection \<open>One call of SDL_ReportAssertion\<close>

lemma reported_AlwaysIgnore [simp]:
  "AlwaysIgnore (heap (reported data fn file line w) a) = AlwaysIgnore (heap w a)"
  by (simp add: reported_def SDL_AddAssertionToReport_def store_def Let_def)

lemma reported_handler_calls [simp]:
  "handler_calls (reported data fn file line w) = handler_calls w"
  by (simp add: reported_def SDL_AddAssertionToReport_def store_def Let_def)

lemma report_ignored:
  "AlwaysIgnore (heap w data) \<Longrightarrow>
   SDL_ReportAssertion h data fn file line w = Returned SDL_ASSERTION_IGNORE (reported data fn file line w)"
  using reported_AlwaysIgnore[of data fn "file" line w data]
  unfolding SDL_ReportAssertion_def Let_def reported_def
  by (simp del: reported_AlwaysIgnore)

lemma report_calls_handler:
  "\<not> AlwaysIgnore (heap w data) \<Longrightarrow>
   SDL_ReportAssertion h data fn file line w =
     (case h data (handler_entry data fn file line w) of
        Exited code v \<Rightarrow> Exited code v
      | Returned state v \<Rightarrow>
          (case state of
             SDL_ASSERTION_ALWAYS_IGNORE \<Rightarrow>
               Returned SDL_ASSERTION_IGNORE (store data ((heap v data)\<lparr>AlwaysIgnore := True\<rparr>) v)
           | SDL_ASSERTION_ABORT \<Rightarrow> Exited 42 v
           | _ \<Rightarrow> Returned state v))"
  using reported_AlwaysIgnore[of data fn "file" line w data]
  unfolding SDL_ReportAssertion_def Let_def reported_def handler_entry_def
  by (simp del: reported_AlwaysIgnore add: SDL_AbortAssertion_def SDL_ExitProcess_def
        split: outcome.splits SDL_AssertState.splits)

text \<open>
  The counter is 1 at its test in every call, so the escalation is never taken: what a
  call does is decided by the record's flag and by the handler alone.
\<close>

lemma report_outcome_cases:
  "SDL_ReportAssertion h data fn file line w =
     (if AlwaysIgnore (heap w data) then Returned SDL_ASSERTION_IGNORE (reported data fn file line w)
      else (case h data (handler_entry data fn file line w) of
        Exited code v \<Rightarrow> Exited code v
      | Returned state v \<Rightarrow>
          (case state of
             SDL_ASSERTION_ALWAYS_IGNORE \<Rightarrow>
               Returned SDL_ASSERTION_IGNORE (store data ((heap v data)\<lparr>AlwaysIgnore := True\<rparr>) v)
           | SDL_ASSERTION_ABORT \<Rightarrow> Exited 42 v
           | _ \<Rightarrow> Returned state v)))"
  by (simp add: report_ignored report_calls_handler)

lemma exit_only_through_handler:
  assumes "SDL_ReportAssertion h data fn file line w = Exited code v"
  shows "\<not> AlwaysIgnore (heap w data) \<and>
         (h data (handler_entry data fn file line w) = Exited code v \<or>
          h data (handler_entry data fn file line w) = Returned SDL_ASSERTION_ABORT v \<and> code = 42)"
  using assms
  by (auto simp: report_outcome_cases split: if_splits outcome.splits SDL_AssertState.splits)

lemma first_trigger:
  assumes "TriggerCount (heap w a) = 0"
  shows "heap (reported a fn file line w) a =
           (heap w a)\<lparr>Function := fn, Filename := file, Linenum := line, TriggerCount := 1,
                       Next := triggeredAssertions w\<rparr>"
    and "triggeredAssertions (reported a fn file line w) = Some a"
    and "\<And>b. b \<noteq> a \<Longrightarrow> heap (reported a fn file line w) b = heap w b"
  using assms by (simp_all add: reported_def SDL_AddAssertionToReport_def store_def Let_def)

lemma final_world_answering:
  assumes "\<not> AlwaysIgnore (heap w a)"
  shows "heap (final_world (SDL_ReportAssertion (answering s) a fn file line w)) a =
           (heap (reported a fn file line w) a)\<lparr>AlwaysIgnore := (s = SDL_ASSERTION_ALWAYS_IGNORE)\<rparr>"
    and "triggeredAssertions (final_world (SDL_ReportAssertion (answering s) a fn file line w)) =
           triggeredAssertions (reported a fn file line w)"
    and "handler_calls (final_world (SDL_ReportAssertion (answering s) a fn file line w)) =
           handler_calls w @ [a]"
  using assms reported_AlwaysIgnore[of a fn "file" line w a]
  by (cases s; simp add: report_calls_handler answering_def handler_entry_def store_def
        del: reported_AlwaysIgnore)+

subsection \<open>Repeated failures\<close>

text \<open>
  When the same record is reported again and again (by a handler that leaves the records
  alone and does not abort), it is counted at every report and registered at the first
  one only.
\<close>

lemma chain_same_Next: "(\<And>a. Next (h' a) = Next (h a)) \<Longrightarrow> chain h' p as = chain h p as"
  by (induction as arbitrary: p) auto

lemma later_trigger:
  assumes "TriggerCount (heap w data) = of_nat k" "0 < k" "k < 2 ^ 64"
  shows "reported data fn file line w = store data ((heap w data)\<lparr>TriggerCount := of_nat (Suc k)\<rparr>) w"
proof -
  have "(of_nat k :: go_int) \<noteq> 0" using assms(2,3) by (intro of_nat_neq_0) simp_all
  then show ?thesis
    using assms(1) by (simp add: reported_def SDL_AddAssertionToReport_def store_def Let_def ac_simps)
qed

lemma later_report:
  assumes "TriggerCount (heap w data) = of_nat k" "0 < k" "k < 2 ^ 64"
    and "registry w as" and "s \<noteq> SDL_ASSERTION_ABORT"
  shows "\<exists>s' u. SDL_ReportAssertion (answering s) data fn file line w = Returned s' u \<and>
           TriggerCount (heap u data) = of_nat (Suc k) \<and> registry u as"
proof -
  have r: "reported data fn file line w = store data ((heap w data)\<lparr>TriggerCount := of_nat (Suc k)\<rparr>) w"
    using assms(1,2,3) by (rule later_trigger)
  have c: "chain ((heap w)(data := r)) p as = chain (heap w) p as" if "Next r = Next (heap w data)" for r p
    using that by (intro chain_same_Next) simp
  show ?thesis
    using assms(4,5)
    by (cases s; cases "AlwaysIgnore (heap w data)")
       (simp_all add: report_outcome_cases answering_def handler_entry_def r store_def registry_def c)
qed

lemma first_report:
  assumes "TriggerCount (heap w data) = 0" "registry w as" "data \<notin> set as" "s \<noteq> SDL_ASSERTION_ABORT"
  shows "\<exists>s' u. SDL_ReportAssertion (answering s) data fn file line w = Returned s' u \<and>
           TriggerCount (heap u data) = 1 \<and> registry u (data # as)"
proof -
  have c: "chain ((heap w)(data := r)) p as = chain (heap w) p as" for r p
    using assms(3) by (rule chain_update_other)
  show ?thesis
    using assms
    by (cases s; cases "AlwaysIgnore (heap w data)")
       (simp_all add: report_outcome_cases answering_def handler_entry_def reported_def
          SDL_AddAssertionToReport_def store_def registry_def Let_def c)
qed


lemma later_reports:
  assumes "TriggerCount (heap w data) = of_nat k" "0 < k" "k + n < 2 ^ 64"
    and "registry w as" and "s \<noteq> SDL_ASSERTION_ABORT"
  shows "\<exists>s' u. report_again n (answering s) data fn file line w = Returned s' u \<and>
           TriggerCount (heap u data) = of_nat (k + n + 1) \<and> registry u as"
  using assms
proof (induction n arbitrary: w k)
  case 0
  then show ?case using later_report[of w data k as s fn "file" line] by simp
next
  case (Suc n)
  from Suc.prems have "k < 2 ^ 64" by simp
  with Suc.prems later_report[of w data k as s fn "file" line]
  obtain s' u where u: "SDL_ReportAssertion (answering s) data fn file line w = Returned s' u"
    "TriggerCount (heap u data) = of_nat (Suc k)" "registry u as" by blast
  have "\<exists>s' v. report_again n (answering s) data fn file line u = Returned s' v \<and>
           TriggerCount (heap v data) = of_nat (Suc k + n + 1) \<and> registry v as"
    using u(2,3) Suc.prems by (intro Suc.IH) simp_all
  then show ?case using u(1) by simp
qed

lemma same_record_counted_once:
  assumes "TriggerCount (heap w data) = 0" "registry w as" "data \<notin> set as"
    and "s \<noteq> SDL_ASSERTION_ABORT" and "n < 2 ^ 64" and "1 \<le> n"
  shows "\<exists>s' u. report_again (n - 1) (answering s) data fn file line w = Returned s' u \<and>
           TriggerCount (heap u data) = of_nat n \<and> registry u (data # as)"
proof (cases "n - 1")
  case 0
  with assms(6) have "n = 1" by simp
  then show ?thesis
    using first_report[OF assms(1-4), of fn "file" line] by simp
next
  case (Suc m)
  from first_report[OF assms(1-4), of fn "file" line]
  obtain s' u where u: "SDL_ReportAssertion (answering s) data fn file line w = Returned s' u"
    "TriggerCount (heap u data) = 1" "registry u (data # as)" by blast
  have "\<exists>s' v. report_again m (answering s) data fn file line u = Returned s' v \<and>
           TriggerCount (heap v data) = of_nat (1 + m + 1) \<and> registry v (data # as)"
    using u(2,3) assms(4,5) Suc by (intro later_reports) simp_all
  moreover have "n = 1 + m + 1" using Suc by simp
  ultimately show ?thesis using u(1) Suc by simp
qed

text \<open>
  \<^verbatim>\<open>SDL_enabled_assert\<close> makes a new record at every pass of its loop. With a handler
  that answers RETRY \<open>n\<close> times, the call site fails \<open>n + 1\<close> times in a row and leaves
  \<open>n + 1\<close> records in the registry, each with a trigger count of 1.
\<close>

lemma one_pass:
  "SDL_ReportAssertion retrying (fst (new_SDL_AssertData w)) fn file line (snd (new_SDL_AssertData w)) =
     Returned (if 0 < assertionData w then SDL_ASSERTION_RETRY else SDL_ASSERTION_IGNORE)
       (passed fn file line w)"
  by (simp add: new_SDL_AssertData_def report_outcome_cases retrying_def handler_entry_def
        zero_AssertData_def reported_def SDL_AddAssertionToReport_def store_def Let_def passed_def)

lemma passed_registry:
  assumes "registry w as" "\<forall>a\<in>set as. a < next_free w"
  shows "registry (passed fn file line w) (next_free w # as)"
proof -
  have "next_free w \<notin> set as" using assms(2) by auto
  then show ?thesis
    using assms(1) by (simp add: registry_def passed_def chain_update_other)
qed

lemma enabled_assert_unfold:
  "SDL_enabled_assert retrying False fn file line w =
     (if 0 < assertionData w
      then SDL_enabled_assert retrying False fn file line (passed fn file line w)
      else Some (Returned () (passed fn file line w)))"
  using one_pass[of w fn "file" line]
  by (subst SDL_enabled_assert.simps) (simp add: split_beta)

lemma enabled_assert_retrying:
  assumes "assertionData w = n" "registry w as" "\<forall>a\<in>set as. a < next_free w"
  shows "\<exists>v. SDL_enabled_assert retrying False fn file line w = Some (Returned () v) \<and>
           registry v (rev [next_free w ..< next_free w + Suc n] @ as) \<and>
           (\<forall>a. next_free w \<le> a \<and> a < next_free w + Suc n \<longrightarrow> TriggerCount (heap v a) = 1) \<and>
           (\<forall>a < next_free w. heap v a = heap w a) \<and>
           next_free v = next_free w + Suc n"
  using assms
proof (induction n arbitrary: w as)
  case 0
  then show ?case
    using passed_registry[of w as fn "file" line]
    by (subst enabled_assert_unfold) (auto simp: passed_def)
next
  case (Suc n)
  let ?p = "passed fn file line w"
  have p1: "assertionData ?p = n" using Suc.prems(1) by (simp add: passed_def)
  have p2: "registry ?p (next_free w # as)" using Suc.prems(2,3) by (rule passed_registry)
  have nf: "next_free ?p = Suc (next_free w)" by (simp add: passed_def)
  have p3: "\<forall>a\<in>set (next_free w # as). a < next_free ?p"
    using Suc.prems(3) by (auto simp: nf)
  from Suc.IH[OF p1 p2 p3] obtain v where v:
    "SDL_enabled_assert retrying False fn file line ?p = Some (Returned () v)"
    "registry v (rev [next_free ?p ..< next_free ?p + Suc n] @ next_free w # as)"
    "\<forall>a. next_free ?p \<le> a \<and> a < next_free ?p + Suc n \<longrightarrow> TriggerCount (heap v a) = 1"
    "\<forall>a < next_free ?p. heap v a = heap ?p a"
    "next_free v = next_free ?p + Suc n" by blast
  have r: "SDL_enabled_assert retrying False fn file line w = Some (Returned () v)"
    using Suc.prems(1) v(1) by (subst enabled_assert_unfold) simp
  have u: "[next_free w ..< next_free w + Suc (Suc n)] =
           next_free w # [Suc (next_free w) ..< Suc (next_free w) + Suc n]"
    by (subst upt_conv_Cons) (simp_all del: upt_Suc)
  have reg: "registry v (rev [next_free w ..< next_free w + Suc (Suc n)] @ as)"
    using v(2) by (simp only: nf u rev.simps append_assoc append_Cons append_Nil)
  have n5: "next_free v = next_free w + Suc (Suc n)" using v(5) by (simp add: nf)
  have k: "TriggerCount (heap v (next_free w)) = 1"
    using v(4) by (simp add: nf passed_def)
  have c: "TriggerCount (heap v a) = 1" if "next_free w \<le> a" "a < next_free w + Suc (Suc n)" for a
  proof (cases "a = next_free w")
    case True
    with k show ?thesis by simp
  next
    case False
    with that v(3) show ?thesis by (simp add: nf)
  qed
  have f: "heap v a = heap w a" if "a < next_free w" for a
    using that v(4) by (simp add: nf passed_def)
  show ?case using r reg n5 c f by blast
qed

lemma retry_then_ignore:
  "\<exists>v. SDL_enabled_assert retrying False ''main.f'' ''main.go'' 10 (initial_world\<lparr>assertionData := 1\<rparr>)
          = Some (Returned () v) \<and>
        handler_calls v = [0, 1] \<and> registry v [1, 0] \<and>
        TriggerCount (heap v 0) = 1 \<and> TriggerCount (heap v 1) = 1 \<and>
        Function (heap v 0) = ''main.f'' \<and> Function (heap v 1) = ''main.f'' \<and>
        Linenum (heap v 0) = 10 \<and> Linenum (heap v 1) = 10"
  apply (subst SDL_enabled_assert.simps)
  apply (simp add: new_SDL_AssertData_def report_outcome_cases retrying_def handler_entry_def initial_world_def
        zero_AssertData_def reported_def SDL_AddAssertionToReport_def store_def Let_def)
  apply (subst SDL_enabled_assert.simps)
  apply (simp add: new_SDL_AssertData_def report_outcome_cases retrying_def handler_entry_def initial_world_def
        zero_AssertData_def reported_def SDL_AddAssertionToReport_def store_def Let_def registry_def)
  done

lemma ignore_twice:
  "\<exists>v1 v2.
        SDL_enabled_assert (answering SDL_ASSERTION_IGNORE) False ''main.f'' ''main.go'' 10 initial_world
          = Some (Returned () v1) \<and>
        SDL_enabled_assert (answering SDL_ASSERTION_IGNORE) False ''main.f'' ''main.go'' 10 v1
          = Some (Returned () v2) \<and>
        handler_calls v2 = [0, 1] \<and> registry v2 [1, 0] \<and>
        TriggerCount (heap v2 0) = 1 \<and> TriggerCount (heap v2 1) = 1"
  apply (subst SDL_enabled_assert.simps)
  apply (simp add: new_SDL_AssertData_def report_outcome_cases answering_def handler_entry_def initial_world_def
        zero_AssertData_def reported_def SDL_AddAssertionToReport_def store_def Let_def)
  apply (subst SDL_enabled_assert.simps)
  apply (simp add: new_SDL_AssertData_def report_outcome_cases answering_def handler_entry_def initial_world_def
        zero_AssertData_def reported_def SDL_AddAssertionToReport_def store_def Let_def registry_def)
  done

text \<open>
  C1. The record-level half holds (\<open>same_record_counted_once\<close>), but no record is bound
  to a call site. At the second consecutive failure of one call site the registry holds
  two records for it, each with trigger count 1, instead of one record with trigger
  count 2: both when the handler answers RETRY and the loop reports again, and when the
  call site is run twice and the handler answers IGNORE.
\<close>

theorem enabled_assert_new_record_per_failure:
  "(\<exists>v. SDL_enabled_assert retrying False ''main.f'' ''main.go'' 10 (initial_world\<lparr>assertionData := 1\<rparr>)
          = Some (Returned () v) \<and>
        handler_calls v = [0, 1] \<and> registry v [1, 0] \<and>
        TriggerCount (heap v 0) = 1 \<and> TriggerCount (heap v 1) = 1 \<and>
        Function (heap v 0) = ''main.f'' \<and> Function (heap v 1) = ''main.f'' \<and>
        Linenum (heap v 0) = 10 \<and> Linenum (heap v 1) = 10) \<and>
   (\<exists>v1 v2.
        SDL_enabled_assert (answering SDL_ASSERTION_IGNORE) False ''main.f'' ''main.go'' 10 initial_world
          = Some (Returned () v1) \<and>
        SDL_enabled_assert (answering SDL_ASSERTION_IGNORE) False ''main.f'' ''main.go'' 10 v1
          = Some (Returned () v2) \<and>
        handler_calls v2 = [0, 1] \<and> registry v2 [1, 0] \<and>
        TriggerCount (heap v2 0) = 1 \<and> TriggerCount (heap v2 1) = 1)"
  by (intro conjI retry_then_ignore ignore_twice)

text \<open>
  C2. A failure reported while the handler runs for an earlier failure is not escalated. The
  handler called for record 0 fails record 1, and the handler called for that fails
  record 2: the handler is called all three times, nothing ends the process, and the
  outermost report returns IGNORE.
\<close>

theorem nested_failure_not_escalated:
  "\<exists>v. SDL_ReportAssertion
          (nesting 1 ''h'' ''h.go'' 20
             (nesting 2 ''k'' ''k.go'' 30 (answering SDL_ASSERTION_IGNORE) SDL_ASSERTION_IGNORE)
             SDL_ASSERTION_IGNORE)
          0 ''f'' ''f.go'' 10 initial_world = Returned SDL_ASSERTION_IGNORE v \<and>
        handler_calls v = [0, 1, 2]"
  by (simp add: report_outcome_cases nesting_def answering_def handler_entry_def initial_world_def
        zero_AssertData_def reported_def SDL_AddAssertionToReport_def store_def Let_def)

subsection \<open>ALWAYS_IGNORE\<close>

lemma report_again_ignored:
  "AlwaysIgnore (heap w data) \<Longrightarrow>
   \<exists>u. report_again n h data fn file line w = Returned SDL_ASSERTION_IGNORE u \<and>
       handler_calls u = handler_calls w \<and> AlwaysIgnore (heap u data)"
proof (induction n arbitrary: w)
  case 0
  then show ?case by (simp add: report_ignored)
next
  case (Suc n)
  let ?v = "reported data fn file line w"
  have "AlwaysIgnore (heap ?v data)" using Suc.prems by simp
  from Suc.IH[OF this] obtain u where
    "report_again n h data fn file line ?v = Returned SDL_ASSERTION_IGNORE u"
    "handler_calls u = handler_calls ?v" "AlwaysIgnore (heap u data)" by blast
  then show ?case using Suc.prems by (simp add: report_ignored)
qed

lemma always_ignore_kept:
  assumes "AlwaysIgnore (heap w a)"
    and "\<And>v. AlwaysIgnore (heap v a) \<Longrightarrow> AlwaysIgnore (heap (final_world (h b v)) a)"
  shows "AlwaysIgnore (heap (final_world (SDL_ReportAssertion h b fn file line w)) a)"
proof -
  have e: "AlwaysIgnore (heap (handler_entry b fn file line w) a)"
    using assms(1) by (simp add: handler_entry_def)
  from assms(2)[OF e] assms(1) show ?thesis
    by (auto simp: report_outcome_cases store_def
          split: outcome.splits SDL_AssertState.splits)
qed

text \<open>
  C5. When the handler called for a record returns ALWAYS_IGNORE, the report returns IGNORE
  and the record's flag is set. From then on every further failure of that record, however
  many in a row and whatever the handler would have done, returns IGNORE without a call of
  the handler, and the flag stays set. (Reports of other records keep the flag as long as
  their handlers do, \<open>always_ignore_kept\<close>; the reset clears it, see C7.)
\<close>

theorem always_ignore_is_sticky:
  assumes "\<not> AlwaysIgnore (heap w data)"
    and "handler data (handler_entry data fn file line w) = Returned SDL_ASSERTION_ALWAYS_IGNORE v"
  shows "\<exists>w'. SDL_ReportAssertion handler data fn file line w = Returned SDL_ASSERTION_IGNORE w' \<and>
           AlwaysIgnore (heap w' data) \<and>
           handler_calls w' = handler_calls v \<and>
           (\<forall>n h' fn' file' line'. \<exists>u.
              report_again n h' data fn' file' line' w' = Returned SDL_ASSERTION_IGNORE u \<and>
              handler_calls u = handler_calls w' \<and> AlwaysIgnore (heap u data))"
proof -
  let ?w' = "store data ((heap v data)\<lparr>AlwaysIgnore := True\<rparr>) v"
  have 1: "SDL_ReportAssertion handler data fn file line w = Returned SDL_ASSERTION_IGNORE ?w'"
    using assms by (simp add: report_calls_handler)
  have 2: "AlwaysIgnore (heap ?w' data)" by (simp add: store_def)
  have 3: "handler_calls ?w' = handler_calls v" by (simp add: store_def)
  show ?thesis using 1 2 3 report_again_ignored[OF 2] by blast
qed

theorem always_ignore_is_sticky_witness:
  "\<not> AlwaysIgnore (heap initial_world 0) \<and>
   answering SDL_ASSERTION_ALWAYS_IGNORE 0 (handler_entry 0 ''f'' ''f.go'' 10 initial_world) =
     Returned SDL_ASSERTION_ALWAYS_IGNORE (handler_entry 0 ''f'' ''f.go'' 10 initial_world) \<and>
   (\<exists>w'. SDL_ReportAssertion (answering SDL_ASSERTION_ALWAYS_IGNORE) 0 ''f'' ''f.go'' 10 initial_world =
            Returned SDL_ASSERTION_IGNORE w' \<and>
          AlwaysIgnore (heap w' 0) \<and> handler_calls w' = [0] \<and>
          (\<exists>u. report_again 2 (answering SDL_ASSERTION_ABORT) 0 ''f'' ''f.go'' 10 w' =
                 Returned SDL_ASSERTION_IGNORE u \<and> handler_calls u = [0]))"
proof -
  have h1: "\<not> AlwaysIgnore (heap initial_world 0)"
    by (simp add: initial_world_def zero_AssertData_def)
  have h2: "answering SDL_ASSERTION_ALWAYS_IGNORE 0 (handler_entry 0 ''f'' ''f.go'' 10 initial_world) =
     Returned SDL_ASSERTION_ALWAYS_IGNORE (handler_entry 0 ''f'' ''f.go'' 10 initial_world)"
    by (simp add: answering_def)
  have c: "handler_calls (handler_entry 0 ''f'' ''f.go'' 10 initial_world) = [0]"
    by (simp add: handler_entry_def initial_world_def)
  from always_ignore_is_sticky
         [of initial_world 0 "answering SDL_ASSERTION_ALWAYS_IGNORE" "''f''" "''f.go''" 10
             "handler_entry 0 ''f'' ''f.go'' 10 initial_world", OF h1 h2]
  obtain w' where
    r: "SDL_ReportAssertion (answering SDL_ASSERTION_ALWAYS_IGNORE) 0 ''f'' ''f.go'' 10 initial_world =
          Returned SDL_ASSERTION_IGNORE w'"
    and f: "AlwaysIgnore (heap w' 0)"
    and l: "handler_calls w' = handler_calls (handler_entry 0 ''f'' ''f.go'' 10 initial_world)"
    and a: "\<forall>n h' fn' file' line'. \<exists>u.
              report_again n h' 0 fn' file' line' w' = Returned SDL_ASSERTION_IGNORE u \<and>
              handler_calls u = handler_calls w' \<and> AlwaysIgnore (heap u 0)"
    by blast
  from a obtain u where
    "report_again 2 (answering SDL_ASSERTION_ABORT) 0 ''f'' ''f.go'' 10 w' = Returned SDL_ASSERTION_IGNORE u"
    "handler_calls u = handler_calls w'" by blast
  with h1 h2 r f l c show ?thesis by auto
qed

subsection \<open>The reset\<close>

text \<open>
  C7. On a registry that is the list \<open>as\<close>, the reset returns, leaves the registry empty and
  every record of \<open>as\<close> with trigger count 0 and the flag unset. A failure of such a record
  after it is a first trigger: the handler is called, the location is the new one, the
  trigger count is 1 and the record is the registry's only entry.
\<close>

theorem reset_restores_first_trigger:
  assumes "registry w as"
  shows "\<exists>w'. SDL_ResetAssertionReport w = Some w' \<and> registry w' [] \<and>
           (\<forall>a\<in>set as. TriggerCount (heap w' a) = 0 \<and> \<not> AlwaysIgnore (heap w' a) \<and>
              (\<forall>s fn file line.
                 Function (heap (final_world (SDL_ReportAssertion (answering s) a fn file line w')) a) = fn \<and>
                 Filename (heap (final_world (SDL_ReportAssertion (answering s) a fn file line w')) a) = file \<and>
                 Linenum (heap (final_world (SDL_ReportAssertion (answering s) a fn file line w')) a) = line \<and>
                 TriggerCount (heap (final_world (SDL_ReportAssertion (answering s) a fn file line w')) a) = 1 \<and>
                 registry (final_world (SDL_ReportAssertion (answering s) a fn file line w')) [a] \<and>
                 handler_calls (final_world (SDL_ReportAssertion (answering s) a fn file line w')) =
                   handler_calls w' @ [a]))"
proof -
  let ?w' = "w\<lparr>heap := (\<lambda>a. if a \<in> set as then cleared (heap w a) else heap w a),
               triggeredAssertions := None\<rparr>"
  have r: "SDL_ResetAssertionReport w = Some ?w'" using assms by (rule reset_registry)
  have e: "registry ?w' []" by (simp add: registry_def)
  have "TriggerCount (heap ?w' a) = 0 \<and> \<not> AlwaysIgnore (heap ?w' a) \<and>
        Function (heap (final_world (SDL_ReportAssertion (answering s) a fn fl ln ?w')) a) = fn \<and>
        Filename (heap (final_world (SDL_ReportAssertion (answering s) a fn fl ln ?w')) a) = fl \<and>
        Linenum (heap (final_world (SDL_ReportAssertion (answering s) a fn fl ln ?w')) a) = ln \<and>
        TriggerCount (heap (final_world (SDL_ReportAssertion (answering s) a fn fl ln ?w')) a) = 1 \<and>
        registry (final_world (SDL_ReportAssertion (answering s) a fn fl ln ?w')) [a] \<and>
        handler_calls (final_world (SDL_ReportAssertion (answering s) a fn fl ln ?w')) =
          handler_calls ?w' @ [a]"
    if a: "a \<in> set as" for a s fn fl ln
  proof -
    have c: "TriggerCount (heap ?w' a) = 0" and i: "\<not> AlwaysIgnore (heap ?w' a)"
      using a by (simp_all add: cleared_def)
    have n: "triggeredAssertions ?w' = None" by simp
    show ?thesis
      using c i
      by (simp add: final_world_answering[OF i] first_trigger[OF c] registry_def)
  qed
  with r e show ?thesis by blast
qed

theorem reset_restores_first_trigger_witness:
  "registry one_ignored [0] \<and> AlwaysIgnore (heap one_ignored 0) \<and>
   TriggerCount (heap one_ignored 0) = 1 \<and>
   (\<exists>w'. SDL_ResetAssertionReport one_ignored = Some w' \<and> registry w' [] \<and>
          TriggerCount (heap w' 0) = 0 \<and> \<not> AlwaysIgnore (heap w' 0) \<and>
          Function (heap (final_world (SDL_ReportAssertion (answering SDL_ASSERTION_IGNORE) 0 ''g'' ''g.go'' 20 w')) 0) = ''g'' \<and>
          Linenum (heap (final_world (SDL_ReportAssertion (answering SDL_ASSERTION_IGNORE) 0 ''g'' ''g.go'' 20 w')) 0) = 20 \<and>
          registry (final_world (SDL_ReportAssertion (answering SDL_ASSERTION_IGNORE) 0 ''g'' ''g.go'' 20 w')) [0])"
proof -
  have w: "registry one_ignored [0] \<and> AlwaysIgnore (heap one_ignored 0) \<and>
      TriggerCount (heap one_ignored 0) = 1"
    by (simp add: one_ignored_def report_outcome_cases answering_def handler_entry_def initial_world_def
        zero_AssertData_def reported_def SDL_AddAssertionToReport_def store_def Let_def registry_def)
  then have "registry one_ignored [0]" by simp
  from reset_restores_first_trigger[OF this] obtain w' where
    "SDL_ResetAssertionReport one_ignored = Some w'" "registry w' []"
    "\<forall>a\<in>set [0]. TriggerCount (heap w' a) = 0 \<and> \<not> AlwaysIgnore (heap w' a) \<and>
              (\<forall>s fn file line.
                 Function (heap (final_world (SDL_ReportAssertion (answering s) a fn file line w')) a) = fn \<and>
                 Filename (heap (final_world (SDL_ReportAssertion (answering s) a fn file line w')) a) = file \<and>
                 Linenum (heap (final_world (SDL_ReportAssertion (answering s) a fn file line w')) a) = line \<and>
                 TriggerCount (heap (final_world (SDL_ReportAssertion (answering s) a fn file line w')) a) = 1 \<and>
                 registry (final_world (SDL_ReportAssertion (answering s) a fn file line w')) [a] \<and>
                 handler_calls (final_world (SDL_ReportAssertion (answering s) a fn file line w')) =
                   handler_calls w' @ [a])"
    by blast
  with w show ?thesis by simp
qed

subsection \<open>The default handler\<close>

lemma prompt_loop_prompts:
  "length err < length (stderr (snd (prompt_loop state ins err)))"
proof (induction state ins err rule: prompt_loop.induct)
  case (1 state err)
  then show ?case by simp
next
  case (2 state rest err)
  then show ?case by simp
next
  case (3 state buf rest err)
  then show ?case by (auto simp: less_Suc_eq dest: Suc_lessD)
qed

lemma prompt_loop_changes_stderr: "stderr (snd (prompt_loop state ins err)) \<noteq> err"
  using prompt_loop_prompts[of err state ins] by auto

lemma prompt_loop_no_choice:
  "\<forall>buf. Scanned buf \<in> set ins \<longrightarrow> buf \<notin> {''a'', ''b'', ''r'', ''i'', ''A''} \<Longrightarrow>
   fst (prompt_loop state ins err) = state"
  by (induction state ins err rule: prompt_loop.induct) auto

lemma Getenv_empty_iff:
  "Getenv env key = [] \<longleftrightarrow> env key = None \<or> env key = Some []"
  by (simp add: Getenv_def split: option.splits)

lemma SDL_PromptAssertion_override:
  assumes "env ''SDL_ASSERT'' = Some v" "v \<noteq> []"
  shows "SDL_PromptAssertion env con =
          ((if v = ''abort'' then SDL_ASSERTION_ABORT
            else if v = ''break'' then SDL_ASSERTION_BREAK
            else if v = ''retry'' then SDL_ASSERTION_RETRY
            else if v = ''ignore'' then SDL_ASSERTION_IGNORE
            else if v = ''always_ignore'' then SDL_ASSERTION_ALWAYS_IGNORE
            else SDL_ASSERTION_ABORT), con)"
  using assms by (simp add: SDL_PromptAssertion_def Getenv_def)

lemma SDL_PromptAssertion_prompt:
  assumes "env ''SDL_ASSERT'' = None \<or> env ''SDL_ASSERT'' = Some []"
  shows "SDL_PromptAssertion env con = prompt_loop SDL_ASSERTION_ABORT (stdin con) (stderr con)"
  using assms by (auto simp: SDL_PromptAssertion_def Getenv_def)

text \<open>
  C6, as amended. With \<^verbatim>\<open>SDL_ASSERT\<close> set to abort, break, retry, ignore or always_ignore
  the default handler returns that state and writes no prompt; any other value that is not
  empty gives ABORT, again with no prompt. It prompts exactly when the variable is unset
  or set to the empty string, and when the input ends (or a scan fails) before one of the
  five letters has been read the answer is ABORT.
\<close>

theorem SDL_PromptAssertion_override_then_prompt:
  "(env ''SDL_ASSERT'' = Some ''abort'' \<longrightarrow> SDL_PromptAssertion env con = (SDL_ASSERTION_ABORT, con)) \<and>
   (env ''SDL_ASSERT'' = Some ''break'' \<longrightarrow> SDL_PromptAssertion env con = (SDL_ASSERTION_BREAK, con)) \<and>
   (env ''SDL_ASSERT'' = Some ''retry'' \<longrightarrow> SDL_PromptAssertion env con = (SDL_ASSERTION_RETRY, con)) \<and>
   (env ''SDL_ASSERT'' = Some ''ignore'' \<longrightarrow> SDL_PromptAssertion env con = (SDL_ASSERTION_IGNORE, con)) \<and>
   (env ''SDL_ASSERT'' = Some ''always_ignore'' \<longrightarrow>
      SDL_PromptAssertion env con = (SDL_ASSERTION_ALWAYS_IGNORE, con)) \<and>
   (\<forall>v. env ''SDL_ASSERT'' = Some v \<and> v \<noteq> [] \<and>
        v \<notin> {''abort'', ''break'', ''retry'', ''ignore'', ''always_ignore''} \<longrightarrow>
        SDL_PromptAssertion env con = (SDL_ASSERTION_ABORT, con)) \<and>
   ((stderr (snd (SDL_PromptAssertion env con)) \<noteq> stderr con) =
      (env ''SDL_ASSERT'' = None \<or> env ''SDL_ASSERT'' = Some [])) \<and>
   ((env ''SDL_ASSERT'' = None \<or> env ''SDL_ASSERT'' = Some []) \<and> stdin con = [] \<longrightarrow>
      SDL_PromptAssertion env con =
        (SDL_ASSERTION_ABORT, \<lparr>stdin = [], stderr = stderr con @ [prompt_text]\<rparr>)) \<and>
   ((env ''SDL_ASSERT'' = None \<or> env ''SDL_ASSERT'' = Some []) \<and>
    (\<forall>buf. Scanned buf \<in> set (stdin con) \<longrightarrow> buf \<notin> {''a'', ''b'', ''r'', ''i'', ''A''}) \<longrightarrow>
      fst (SDL_PromptAssertion env con) = SDL_ASSERTION_ABORT)"
proof -
  have p: "stderr (snd (SDL_PromptAssertion env con)) \<noteq> stderr con"
    if "env ''SDL_ASSERT'' = None \<or> env ''SDL_ASSERT'' = Some []"
    using that by (simp only: SDL_PromptAssertion_prompt prompt_loop_changes_stderr not_False_eq_True)
  have q: "stderr (snd (SDL_PromptAssertion env con)) = stderr con"
    if "\<not> (env ''SDL_ASSERT'' = None \<or> env ''SDL_ASSERT'' = Some [])"
  proof -
    from that obtain v where "env ''SDL_ASSERT'' = Some v" "v \<noteq> []" by auto
    then show ?thesis by (simp add: SDL_PromptAssertion_override)
  qed
  have e: "SDL_PromptAssertion env con =
        (SDL_ASSERTION_ABORT, \<lparr>stdin = [], stderr = stderr con @ [prompt_text]\<rparr>)"
    if "env ''SDL_ASSERT'' = None \<or> env ''SDL_ASSERT'' = Some []" "stdin con = []"
    using that by (simp add: SDL_PromptAssertion_prompt)
  have c1: "env ''SDL_ASSERT'' = Some ''abort'' \<longrightarrow> SDL_PromptAssertion env con = (SDL_ASSERTION_ABORT, con)"
    by (simp add: SDL_PromptAssertion_override)
  have c2: "env ''SDL_ASSERT'' = Some ''break'' \<longrightarrow> SDL_PromptAssertion env con = (SDL_ASSERTION_BREAK, con)"
    by (simp add: SDL_PromptAssertion_override)
  have c3: "env ''SDL_ASSERT'' = Some ''retry'' \<longrightarrow> SDL_PromptAssertion env con = (SDL_ASSERTION_RETRY, con)"
    by (simp add: SDL_PromptAssertion_override)
  have c4: "env ''SDL_ASSERT'' = Some ''ignore'' \<longrightarrow> SDL_PromptAssertion env con = (SDL_ASSERTION_IGNORE, con)"
    by (simp add: SDL_PromptAssertion_override)
  have c5: "env ''SDL_ASSERT'' = Some ''always_ignore'' \<longrightarrow>
      SDL_PromptAssertion env con = (SDL_ASSERTION_ALWAYS_IGNORE, con)"
    by (simp add: SDL_PromptAssertion_override)
  have c6: "\<forall>v. env ''SDL_ASSERT'' = Some v \<and> v \<noteq> [] \<and>
        v \<notin> {''abort'', ''break'', ''retry'', ''ignore'', ''always_ignore''} \<longrightarrow>
        SDL_PromptAssertion env con = (SDL_ASSERTION_ABORT, con)"
    by (simp add: SDL_PromptAssertion_override)
  have c7: "(stderr (snd (SDL_PromptAssertion env con)) \<noteq> stderr con) =
      (env ''SDL_ASSERT'' = None \<or> env ''SDL_ASSERT'' = Some [])"
    using p q by blast
  have c8: "(env ''SDL_ASSERT'' = None \<or> env ''SDL_ASSERT'' = Some []) \<and> stdin con = [] \<longrightarrow>
      SDL_PromptAssertion env con =
        (SDL_ASSERTION_ABORT, \<lparr>stdin = [], stderr = stderr con @ [prompt_text]\<rparr>)"
    using e by blast
  have c9: "(env ''SDL_ASSERT'' = None \<or> env ''SDL_ASSERT'' = Some []) \<and>
      (\<forall>buf. Scanned buf \<in> set (stdin con) \<longrightarrow> buf \<notin> {''a'', ''b'', ''r'', ''i'', ''A''}) \<longrightarrow>
      fst (SDL_PromptAssertion env con) = SDL_ASSERTION_ABORT"
  proof (intro impI, elim conjE)
    assume u: "env ''SDL_ASSERT'' = None \<or> env ''SDL_ASSERT'' = Some []"
      and n: "\<forall>buf. Scanned buf \<in> set (stdin con) \<longrightarrow> buf \<notin> {''a'', ''b'', ''r'', ''i'', ''A''}"
    show "fst (SDL_PromptAssertion env con) = SDL_ASSERTION_ABORT"
      using SDL_PromptAssertion_prompt[of env con, OF u] prompt_loop_no_choice[OF n] by simp
  qed
  show ?thesis
    by (intro conjI c1 c2 c3 c4 c5 c6 c7 c8 c9)
qed

theorem SDL_PromptAssertion_override_then_prompt_witness:
  "SDL_PromptAssertion [''SDL_ASSERT'' \<mapsto> ''ignore''] \<lparr>stdin = [Scanned ''a''], stderr = []\<rparr> =
     (SDL_ASSERTION_IGNORE, \<lparr>stdin = [Scanned ''a''], stderr = []\<rparr>) \<and>
   SDL_PromptAssertion [''SDL_ASSERT'' \<mapsto> ''1''] \<lparr>stdin = [Scanned ''i''], stderr = []\<rparr> =
     (SDL_ASSERTION_ABORT, \<lparr>stdin = [Scanned ''i''], stderr = []\<rparr>) \<and>
   SDL_PromptAssertion Map.empty \<lparr>stdin = [], stderr = []\<rparr> =
     (SDL_ASSERTION_ABORT, \<lparr>stdin = [], stderr = [prompt_text]\<rparr>) \<and>
   fst (SDL_PromptAssertion Map.empty \<lparr>stdin = [Scanned ''x'', ScanFailed], stderr = []\<rparr>) =
     SDL_ASSERTION_ABORT"
  using SDL_PromptAssertion_override_then_prompt
          [of "[''SDL_ASSERT'' \<mapsto> ''ignore'']" "\<lparr>stdin = [Scanned ''a''], stderr = []\<rparr>"]
        SDL_PromptAssertion_override_then_prompt
          [of "[''SDL_ASSERT'' \<mapsto> ''1'']" "\<lparr>stdin = [Scanned ''i''], stderr = []\<rparr>"]
        SDL_PromptAssertion_override_then_prompt
          [of Map.empty "\<lparr>stdin = [], stderr = []\<rparr>"]
        SDL_PromptAssertion_override_then_prompt
          [of Map.empty "\<lparr>stdin = [Scanned ''x'', ScanFailed], stderr = []\<rparr>"]
  by simp

text \<open>
  C6 as stated fails: set to the empty string, the variable is not unset, yet the handler
  prompts, and here it returns the IGNORE it reads.
\<close>

theorem SDL_PromptAssertion_empty_override_prompts:
  "[''SDL_ASSERT'' \<mapsto> []] ''SDL_ASSERT'' \<noteq> None \<and>
   SDL_PromptAssertion [''SDL_ASSERT'' \<mapsto> []] \<lparr>stdin = [Scanned ''i''], stderr = []\<rparr> =
     (SDL_ASSERTION_IGNORE, \<lparr>stdin = [], stderr = [prompt_text]\<rparr>)"
  by (simp add: SDL_PromptAssertion_def Getenv_def)

end
